theory Spec2Isabelle
  imports Complex_Main
begin

section \<open>The notebook's numeric cells\<close>

text \<open>
  The notebook computes the ground-state energy density of the transverse-field Ising
  model,
  \<^verbatim>\<open>epsilon(g) = (1/pi) * quad(lambda x: sqrt((g-cos(x))**2 + sin(x)**2), 0, pi)[0]\<close>,
  once for \<open>g = 1.0\<close> (cell 6) and then for \<open>g = 0.1*i\<close>, \<open>i = 0 .. 20\<close>
  (cells 8 and 10).

  Numbers are modelled as reals: the rounding of IEEE doubles is not part of the model.
  The integrator \<^verbatim>\<open>scipy.integrate.quad\<close> is a library routine outside the
  repository, so every cell takes it as a parameter.
\<close>

subsection \<open>Errors\<close>

datatype error =
    NotReal      \<comment> \<open>the square root of a negative number is not a real\<close>
  | QuadError    \<comment> \<open>\<^verbatim>\<open>integrate.quad\<close> raised\<close>
  | IndexError   \<comment> \<open>an array was indexed out of range\<close>

subsection \<open>The integrand\<close>

text \<open>The expression under the square root, \<^verbatim>\<open>(g-cos(x))**2 + sin(x)**2\<close>.\<close>

definition radicand :: "real \<Rightarrow> real \<Rightarrow> real" where
  "radicand g x = (g - cos x)\<^sup>2 + (sin x)\<^sup>2"

text \<open>
  \<^verbatim>\<open>sqrt\<close> is sympy's: on a negative argument it yields an imaginary number,
  which the integrator cannot turn into a float. HOL's \<open>sqrt\<close> is total (and odd), so
  the failure is written out.
\<close>

definition sym_sqrt :: "real \<Rightarrow> error + real" where
  "sym_sqrt r = (if r < 0 then Inl NotReal else Inr (sqrt r))"

text \<open>The closure \<^verbatim>\<open>y = lambda x: sqrt((g-cos(x))**2 + sin(x)**2)\<close>, for the
  value of \<open>g\<close> at the time of the call.\<close>

definition y :: "real \<Rightarrow> real \<Rightarrow> error + real" where
  "y g x = sym_sqrt (radicand g x)"

text \<open>The value of the integrand as a real number.\<close>

definition integrand :: "real \<Rightarrow> real \<Rightarrow> real" where
  "integrand g x = sqrt (radicand g x)"

text \<open>The form printed by cell 2 after \<^verbatim>\<open>sym.simplify\<close>:
  \<^verbatim>\<open>sqrt(g**2 - 2*g*cos(x) + 1)\<close>.\<close>

definition y_simplified :: "real \<Rightarrow> real \<Rightarrow> error + real" where
  "y_simplified g x = sym_sqrt (g\<^sup>2 - 2 * g * cos x + 1)"

subsection \<open>The integrator\<close>

text \<open>
  A call \<^verbatim>\<open>integrate.quad(f, a, b)\<close> either raises, or returns the pair
  \<^verbatim>\<open>(estimate, abserr)\<close> (cell 6 prints such a pair). The library reports an
  exhausted subdivision budget by a warning while it still returns the pair; the status
  records whether that warning was issued.
\<close>

datatype quad_status = Converged | Warned

datatype quad_outcome = Returned "real \<times> real" quad_status | Raised

type_synonym integrator = "(real \<Rightarrow> error + real) \<Rightarrow> real \<Rightarrow> real \<Rightarrow> quad_outcome"

subsection \<open>Cell 6: one point\<close>

text \<open>
  \<^verbatim>\<open>
  I = integrate.quad(y, 0, pi)
  e = (1/pi)*I[0]
  \<close>
  The element \<^verbatim>\<open>I[0]\<close> is read whatever the status.
\<close>

definition energy :: "integrator \<Rightarrow> real \<Rightarrow> error + real" where
  "energy quad g =
     (case quad (y g) 0 pi of
        Raised \<Rightarrow> Inl QuadError
      | Returned I st \<Rightarrow> Inr ((1 / pi) * fst I))"

text \<open>Cell 6 sets \<^verbatim>\<open>g = 1.0\<close> and prints \<open>I\<close>, then \<open>e\<close>.\<close>

definition cell6 :: "integrator \<Rightarrow> error + (real \<times> real) \<times> real" where
  "cell6 quad =
     (let g = 1 in
      case quad (y g) 0 pi of
        Raised \<Rightarrow> Inl QuadError
      | Returned I st \<Rightarrow> (let e = (1 / pi) * fst I in Inr (I, e)))"

subsection \<open>Cell 8: the sweep that prints\<close>

text \<open>
  \<^verbatim>\<open>
  for i in range(0,21):
      g = 0.1*i
      y = lambda x: sqrt((g-cos(x))**2 + sin(x)**2)
      I = integrate.quad(y, 0, pi)
      e = (1/pi)*I[0]
      print(e)
  \<close>
  The loop runs over the list of indices; \<open>out\<close> is what has been printed so far. When
  the integrator raises, the loop stops there: the lines printed before stay printed.
\<close>

fun cell8_loop :: "integrator \<Rightarrow> nat list \<Rightarrow> real list \<Rightarrow> real list \<times> error option" where
  "cell8_loop quad [] out = (out, None)"
| "cell8_loop quad (i # is) out =
     (let g = 0.1 * real i in
      case quad (y g) 0 pi of
        Raised \<Rightarrow> (out, Some QuadError)
      | Returned I st \<Rightarrow> (let e = (1 / pi) * fst I in cell8_loop quad is (out @ [e])))"

definition cell8 :: "integrator \<Rightarrow> real list \<times> error option" where
  "cell8 quad = cell8_loop quad [0..<21] []"

subsection \<open>Cell 10: the sweep that fills two arrays\<close>

text \<open>
  \<^verbatim>\<open>
  result = np.zeros(21)
  g = np.zeros(21)
  for i in range(0,21):
      g[i] = 0.1*i
  for i in range(0,21):
      y = lambda x: sqrt((g[i]-cos(x))**2 + sin(x)**2)
      I = integrate.quad(y, 0, np.pi)
      e = (1/np.pi)*I[0]
      result[i] = e
  \<close>
  The number of points, 21 in the source, is the parameter \<open>n\<close>. An index outside an
  array raises.
\<close>

fun cell10_init :: "nat list \<Rightarrow> real list \<Rightarrow> real list \<times> error option" where
  "cell10_init [] g = (g, None)"
| "cell10_init (i # is) g =
     (if length g \<le> i then (g, Some IndexError)
      else cell10_init is (g[i := 0.1 * real i]))"

fun cell10_loop :: "integrator \<Rightarrow> real list \<Rightarrow> nat list \<Rightarrow> real list \<Rightarrow> real list \<times> error option" where
  "cell10_loop quad g [] result = (result, None)"
| "cell10_loop quad g (i # is) result =
     (if length g \<le> i then (result, Some IndexError)
      else case quad (y (g ! i)) 0 pi of
        Raised \<Rightarrow> (result, Some QuadError)
      | Returned I st \<Rightarrow>
          (let e = (1 / pi) * fst I in
           if length result \<le> i then (result, Some IndexError)
           else cell10_loop quad g is (result[i := e])))"

text \<open>The arrays \<open>g\<close> and \<open>result\<close> at the end of the cell, and the error that stopped
  it, if any.\<close>

definition cell10 :: "integrator \<Rightarrow> nat \<Rightarrow> real list \<times> real list \<times> error option" where
  "cell10 quad n =
     (let result = replicate n 0; g = replicate n 0 in
      case cell10_init [0..<n] g of
        (g', Some err) \<Rightarrow> (g', result, Some err)
      | (g', None) \<Rightarrow>
          (case cell10_loop quad g' [0..<n] result of (result', err) \<Rightarrow> (g', result', err)))"

subsection \<open>The outputs stored in the notebook\<close>

text \<open>The output stored for cell 6 holds the pair
  \<^verbatim>\<open>(3.9999999999999996, 4.4408920985006255e-14)\<close> and, on the next line, the value
  of \<open>e\<close>.\<close>

definition cell6_output_I :: "real \<times> real" where
  "cell6_output_I = (3.9999999999999996, 4.4408920985006255 / 10 ^ 14)"

definition cell6_output_e :: real where
  "cell6_output_e = 1.2732395447351625"

text \<open>The 21 lines printed by cell 8.\<close>

definition cell8_output :: "real list" where
  "cell8_output =
     [1.0,
      1.002501566421584,
      1.0100252539845789,
      1.0226295149208584,
      1.0404170862358302,
      1.063544409973372,
      1.0922385835544972,
      1.1268286675869728,
      1.1678095085207265,
      1.2160009141097237,
      1.2732395447351625,
      1.342864022725127,
      1.4196192748982297,
      1.5008232436750164,
      1.585188300053977,
      1.6719262215361952,
      1.760508122204593,
      1.8505593362793402,
      1.9418043043913793,
      2.034034558740953,
      2.1270888199467435]"

subsection \<open>A one-node integrator\<close>

text \<open>
  The midpoint rule, the simplest integrator with a positive weight: it instantiates the
  integrator parameter where a theorem assumes something of it.
\<close>

definition midpoint_rule :: integrator where
  "midpoint_rule f a b =
     (case f ((a + b) / 2) of
        Inl err \<Rightarrow> Raised
      | Inr v \<Rightarrow> Returned ((b - a) * v, 0) Converged)"

subsection \<open>Integrators that stand for the library's outcomes\<close>

text \<open>
  One integrator for each way a call can end other than a clean return: a pair returned
  together with the non-convergence warning, and an exception.
\<close>

definition warning_quad :: integrator where
  "warning_quad f a b = Returned (pi, 1) Warned"


text \<open>The integrator that returns what cell 6 printed.\<close>

definition recorded_quad :: integrator where
  "recorded_quad f a b = Returned cell6_output_I Converged"

text \<open>An integrator seen without its status: every returned pair counts as converged.\<close>

definition forget_status :: "integrator \<Rightarrow> integrator" where
  "forget_status quad f a b =
     (case quad f a b of
        Raised \<Rightarrow> Raised
      | Returned I st \<Rightarrow> Returned I Converged)"

text \<open>
  An integrator is positive when its estimate for a function that is defined and
  non-negative everywhere is non-negative, as the integral itself is.
\<close>

definition positive_quad :: "integrator \<Rightarrow> bool" where
  "positive_quad quad \<longleftrightarrow>
     (\<forall>f a b I st. a \<le> b \<longrightarrow> (\<forall>x. \<exists>v. f x = Inr v \<and> 0 \<le> v) \<longrightarrow>
        quad f a b = Returned I st \<longrightarrow> 0 \<le> fst I)"

text \<open>
  The only failure of a call that the source itself can cause is a failing evaluation of
  the closure it passes. An integrator raises only with its integrand, on a call, when
  it raises there only if the integrand fails at some point of the interval.
\<close>

definition raises_only_with_integrand ::
    "integrator \<Rightarrow> (real \<Rightarrow> error + real) \<Rightarrow> real \<Rightarrow> real \<Rightarrow> bool" where
  "raises_only_with_integrand quad f a b \<longleftrightarrow>
     (quad f a b = Raised \<longrightarrow> (\<exists>x err. a \<le> x \<and> x \<le> b \<and> f x = Inl err))"

text \<open>
  The pair is \<^verbatim>\<open>(estimate, abserr)\<close>. An integrator is accurate on a call when the
  estimate it returns is within \<open>abserr\<close> of the integral; the integral of \<open>f\<close> over
  \<open>[a, b]\<close> is given as the increase \<open>F b - F a\<close> of a primitive \<open>F\<close> of \<open>f\<close> on
  \<open>[a, b]\<close>.
\<close>

definition accurate_on ::
    "integrator \<Rightarrow> (real \<Rightarrow> error + real) \<Rightarrow> real \<Rightarrow> real \<Rightarrow> bool" where
  "accurate_on quad f a b \<longleftrightarrow>
     (\<forall>F I st. quad f a b = Returned I st \<longrightarrow>
        (\<forall>x. a \<le> x \<and> x \<le> b \<longrightarrow> (\<exists>v. f x = Inr v \<and> DERIV F x :> v)) \<longrightarrow>
        \<bar>fst I - (F b - F a)\<bar> \<le> snd I)"

subsection \<open>More integrators for concrete instances\<close>

text \<open>The trapezoid rule: it evaluates the integrand at both ends of the interval.\<close>

definition trapezoid_rule :: integrator where
  "trapezoid_rule f a b =
     (case f a of
        Inl err \<Rightarrow> Raised
      | Inr u \<Rightarrow>
          (case f b of
             Inl err \<Rightarrow> Raised
           | Inr v \<Rightarrow> Returned ((b - a) / 2 * (u + v), 0) Converged))"

text \<open>An integrator that warns and returns \<open>(pi, 1)\<close>, except that it raises when the
  integrand vanishes at 0, which for the closure \<open>y g\<close> happens at \<open>g = 1\<close> only.\<close>

definition cusp_raising_quad :: integrator where
  "cusp_raising_quad f a b = (if f 0 = Inr 0 then Raised else Returned (pi, 1) Warned)"

subsection \<open>The closed form at \<open>g = 1\<close> and the partial sums that bound \<open>pi\<close>\<close>

text \<open>A primitive of the integrand for \<open>g = 1\<close> on \<open>[0, pi]\<close>.\<close>

definition primitive_at_one :: "real \<Rightarrow> real" where
  "primitive_at_one t = - 4 * cos (t / 2)"

text \<open>The integrator that returns the increase of that primitive, with no error.\<close>

definition closed_form_quad :: integrator where
  "closed_form_quad f a b = Returned (primitive_at_one b - primitive_at_one a, 0) Converged"

text \<open>The first \<open>n\<close> terms of the series of the arc tangent.\<close>

definition arctan_sum :: "nat \<Rightarrow> real \<Rightarrow> real" where
  "arctan_sum n x = (\<Sum>i<n. (- 1) ^ i * (1 / real (i * 2 + 1) * x ^ (i * 2 + 1)))"

section \<open>The integrand is defined everywhere\<close>

lemma radicand_nonneg: "0 \<le> radicand g x"
  by (simp add: radicand_def)

lemma y_integrand: "y g x = Inr (integrand g x)"
  using radicand_nonneg [of g x] by (simp add: y_def sym_sqrt_def integrand_def)

lemma integrand_nonneg: "0 \<le> integrand g x"
  by (simp add: integrand_def radicand_nonneg)

lemma integrand_cusp: "integrand 1 0 = 0"
  by (simp add: integrand_def radicand_def)

lemma y_cusp: "y 1 0 = Inr 0"
  by (simp add: y_integrand integrand_cusp)

lemma trapezoid_rule_raises_only:
  assumes "a \<le> b"
  shows "raises_only_with_integrand trapezoid_rule f a b"
  unfolding raises_only_with_integrand_def
proof
  assume r: "trapezoid_rule f a b = Raised"
  have "(\<exists>err. f a = Inl err) \<or> (\<exists>err. f b = Inl err)"
  proof (rule ccontr)
    assume "\<not> ((\<exists>err. f a = Inl err) \<or> (\<exists>err. f b = Inl err))"
    then obtain u v where "f a = Inr u" and "f b = Inr v"
      by (metis sum.exhaust)
    then have "trapezoid_rule f a b \<noteq> Raised"
      by (simp add: trapezoid_rule_def)
    with r show False by simp
  qed
  then show "\<exists>x err. a \<le> x \<and> x \<le> b \<and> f x = Inl err"
    using assms by auto
qed

text \<open>
  C7. For all real \<open>g\<close> and \<open>x\<close> the expression under the square root is non-negative,
  so the integrand never fails on a negative radicand and its value is a non-negative
  real, also at the cusp \<open>g = 1\<close>, \<open>x = 0\<close>, where it is 0. Hence an integrator that
  raises only when its integrand fails completes over \<open>[0, pi]\<close> for every \<open>g\<close>: it
  returns a pair, and the energy density is computed from it.
\<close>

theorem integrand_total_nonneg:
  "0 \<le> radicand g x \<and> y g x = Inr (integrand g x) \<and> 0 \<le> integrand g x \<and>
   y 1 0 = Inr 0 \<and>
   (raises_only_with_integrand quad (y g) 0 pi \<longrightarrow>
      (\<exists>I st. quad (y g) 0 pi = Returned I st \<and> energy quad g = Inr ((1 / pi) * fst I)))"
proof (intro conjI impI)
  show r: "0 \<le> radicand g x" for g x
    unfolding radicand_def by simp
  show t: "y g x = Inr (integrand g x)" for g x
    unfolding y_def sym_sqrt_def integrand_def using r [of g x] by simp
  show "0 \<le> integrand g x"
    unfolding integrand_def using r [of g x] by simp
  show "y 1 0 = Inr 0"
    unfolding y_def sym_sqrt_def radicand_def by simp
  assume h: "raises_only_with_integrand quad (y g) 0 pi"
  have "quad (y g) 0 pi \<noteq> Raised"
  proof
    assume "quad (y g) 0 pi = Raised"
    with h obtain x err where "y g x = Inl err"
      unfolding raises_only_with_integrand_def by blast
    with t [of g x] show False by simp
  qed
  then obtain I st where "quad (y g) 0 pi = Returned I st"
    by (cases "quad (y g) 0 pi") simp_all
  then show "\<exists>I st. quad (y g) 0 pi = Returned I st \<and> energy quad g = Inr ((1 / pi) * fst I)"
    unfolding energy_def by simp
qed

theorem integrand_total_nonneg_witness:
  "raises_only_with_integrand trapezoid_rule (y 1) 0 pi \<and>
   0 \<le> radicand 1 0 \<and> y 1 0 = Inr (integrand 1 0) \<and> 0 \<le> integrand 1 0 \<and> y 1 0 = Inr 0 \<and>
   trapezoid_rule (y 1) 0 pi = Returned (pi, 0) Converged \<and>
   energy trapezoid_rule 1 = Inr 1"
proof -
  have h: "raises_only_with_integrand trapezoid_rule (y 1) 0 pi"
    by (rule trapezoid_rule_raises_only) simp
  have "integrand 1 pi = 2"
    by (simp add: integrand_def radicand_def)
  then have t: "trapezoid_rule (y 1) 0 pi = Returned (pi, 0) Converged"
    by (simp add: trapezoid_rule_def y_integrand integrand_cusp)
  then have e: "energy trapezoid_rule 1 = Inr 1"
    by (simp add: energy_def)
  from integrand_total_nonneg [of 1 0 trapezoid_rule] h t e show ?thesis
    by blast
qed

section \<open>The simplified integrand\<close>

lemma radicand_simplified: "radicand g x = g\<^sup>2 - 2 * g * cos x + 1"
proof -
  have "(g - cos x)\<^sup>2 = g\<^sup>2 - 2 * g * cos x + (cos x)\<^sup>2"
    by (simp add: power2_diff)
  then show ?thesis
    by (simp add: radicand_def)
qed

lemma y_simplified_eq: "y_simplified g = y g"
  by (rule ext) (simp add: y_simplified_def y_def radicand_simplified)

text \<open>
  C10. The form of the integrand that cell 6 integrates and the form that cell 2 prints
  after simplification are the same function: the two expressions under the square root
  are equal for all real \<open>g\<close> and \<open>x\<close>, so the two closures return the same value at
  every point and any integrator returns the same outcome for both over \<open>[0, pi]\<close>.
\<close>

theorem simplified_integrand_equal:
  "radicand g x = g\<^sup>2 - 2 * g * cos x + 1 \<and>
   y_simplified g x = y g x \<and>
   quad (y_simplified g) 0 pi = quad (y g) 0 pi"
  by (simp add: radicand_simplified y_simplified_eq)

section \<open>The sweep loops\<close>

lemma not_Raised: "q \<noteq> Raised \<longleftrightarrow> (\<exists>I st. q = Returned I st)"
  by (cases q) simp_all

lemma cell8_loop_returns:
  assumes "\<forall>i\<in>set is. quad (y (0.1 * real i)) 0 pi \<noteq> Raised"
  shows "\<exists>es. cell8_loop quad is out = (out @ es, None) \<and>
              list_all2 (\<lambda>i e. energy quad (0.1 * real i) = Inr e) is es"
  using assms
proof (induction "is" arbitrary: out)
  case Nil
  then show ?case by simp
next
  case (Cons i "is")
  from Cons.prems obtain I st where q: "quad (y (0.1 * real i)) 0 pi = Returned I st"
    by (auto simp: not_Raised)
  let ?e = "(1 / pi) * fst I"
  from Cons.prems have "\<forall>j\<in>set is. quad (y (0.1 * real j)) 0 pi \<noteq> Raised"
    by simp
  from Cons.IH [OF this, of "out @ [?e]"] obtain es where
    es: "cell8_loop quad is (out @ [?e]) = ((out @ [?e]) @ es, None)"
        "list_all2 (\<lambda>i e. energy quad (0.1 * real i) = Inr e) is es"
    by blast
  have "cell8_loop quad (i # is) out = (out @ (?e # es), None)"
    using q es(1) by simp
  moreover have "list_all2 (\<lambda>i e. energy quad (0.1 * real i) = Inr e) (i # is) (?e # es)"
    using es(2) q by (simp add: energy_def)
  ultimately show ?case by blast
qed

lemma forget_status_Returned:
  "quad f a b = Returned I st \<Longrightarrow> forget_status quad f a b = Returned I Converged"
  by (simp add: forget_status_def)

lemma forget_status_Raised:
  "quad f a b = Raised \<Longrightarrow> forget_status quad f a b = Raised"
  by (simp add: forget_status_def)

lemma cell8_loop_forget_status:
  "cell8_loop (forget_status quad) is out = cell8_loop quad is out"
proof (induction "is" arbitrary: out)
  case Nil
  then show ?case by simp
next
  case (Cons i "is")
  show ?case
    by (cases "quad (y (0.1 * real i)) 0 pi")
      (simp_all add: forget_status_Returned forget_status_Raised Cons.IH)
qed

lemma cell8_loop_warning_quad:
  "cell8_loop warning_quad is out = (out @ replicate (length is) 1, None)"
proof (induction "is" arbitrary: out)
  case Nil
  then show ?case by simp
next
  case (Cons i "is")
  show ?case
    by (simp add: warning_quad_def [of "y (real i / 10)"] Cons.IH replicate_app_Cons_same)
qed

lemma energy_nonneg:
  assumes "positive_quad quad" and "energy quad g = Inr e"
  shows "0 \<le> e"
proof -
  from assms(2) obtain I st where q: "quad (y g) 0 pi = Returned I st" and e: "e = (1 / pi) * fst I"
    by (auto simp: energy_def split: quad_outcome.splits)
  have "\<forall>x. \<exists>v. y g x = Inr v \<and> 0 \<le> v"
    using y_integrand integrand_nonneg by blast
  with assms(1) q have "0 \<le> fst I"
    unfolding positive_quad_def using pi_ge_zero by blast
  then show ?thesis using e by simp
qed

lemma cell10_init_upt:
  "length g = n \<Longrightarrow> k \<le> n \<Longrightarrow>
   cell10_init [k..<n] g = (take k g @ map (\<lambda>i. 0.1 * real i) [k..<n], None)"
proof (induction "n - k" arbitrary: k g)
  case 0
  then show ?case by simp
next
  case (Suc d)
  then have kn: "k < n" by linarith
  have upt: "[k..<n] = k # [Suc k..<n]" using kn by (simp add: upt_conv_Cons)
  have "cell10_init [Suc k..<n] (g[k := 0.1 * real k])
        = (take (Suc k) (g[k := 0.1 * real k]) @ map (\<lambda>i. 0.1 * real i) [Suc k..<n], None)"
    using Suc kn by (intro Suc.hyps(1)) auto
  moreover have "take (Suc k) (g[k := 0.1 * real k]) = take k g @ [0.1 * real k]"
    using kn Suc.prems(1) by (simp add: take_Suc_conv_app_nth)
  ultimately show ?case using kn Suc.prems(1) by (simp add: upt)
qed

lemma cell10_loop_upt:
  assumes "length g = n" and "length result = n" and "k \<le> n"
    and "\<forall>i<n. quad (y (g ! i)) 0 pi \<noteq> Raised"
  shows "\<exists>es. cell10_loop quad g [k..<n] result = (take k result @ es, None) \<and>
              list_all2 (\<lambda>i e. energy quad (g ! i) = Inr e) [k..<n] es"
  using assms
proof (induction "n - k" arbitrary: k result)
  case 0
  then show ?case by simp
next
  case (Suc d)
  then have kn: "k < n" by linarith
  have upt: "[k..<n] = k # [Suc k..<n]" using kn by (simp add: upt_conv_Cons)
  from Suc.prems(4) kn obtain I st where q: "quad (y (g ! k)) 0 pi = Returned I st"
    by (auto simp: not_Raised)
  let ?e = "(1 / pi) * fst I"
  have "\<exists>es. cell10_loop quad g [Suc k..<n] (result[k := ?e])
               = (take (Suc k) (result[k := ?e]) @ es, None) \<and>
             list_all2 (\<lambda>i e. energy quad (g ! i) = Inr e) [Suc k..<n] es"
    using Suc kn by (intro Suc.hyps(1)) auto
  then obtain es where
    es: "cell10_loop quad g [Suc k..<n] (result[k := ?e])
           = (take (Suc k) (result[k := ?e]) @ es, None)"
        "list_all2 (\<lambda>i e. energy quad (g ! i) = Inr e) [Suc k..<n] es"
    by blast
  have tk: "take (Suc k) (result[k := ?e]) = take k result @ [?e]"
    using kn Suc.prems(2) by (simp add: take_Suc_conv_app_nth)
  have "cell10_loop quad g [k..<n] result = (take k result @ (?e # es), None)"
    using q es(1) tk kn Suc.prems(1,2) by (simp add: upt)
  moreover have "list_all2 (\<lambda>i e. energy quad (g ! i) = Inr e) [k..<n] (?e # es)"
    using es(2) q by (simp add: upt energy_def)
  ultimately show ?case by blast
qed

lemma positive_midpoint_rule: "positive_quad midpoint_rule"
  unfolding positive_quad_def
proof (intro allI impI)
  fix f :: "real \<Rightarrow> error + real" and a b :: real and I :: "real \<times> real" and st
  assume ab: "a \<le> b" and f: "\<forall>x. \<exists>v. f x = Inr v \<and> 0 \<le> v"
    and r: "midpoint_rule f a b = Returned I st"
  from f obtain v where v: "f ((a + b) / 2) = Inr v" "0 \<le> v" by blast
  from r v(1) have "fst I = (b - a) * v"
    by (auto simp: midpoint_rule_def)
  then show "0 \<le> fst I" using ab v(2) by simp
qed

lemma midpoint_rule_y:
  "midpoint_rule (y g) 0 pi = Returned (pi * integrand g (pi / 2), 0) Converged"
  by (simp add: midpoint_rule_def y_integrand)








text \<open>
  C6. When the integrator returns at each of the \<open>n\<close> sweep points, the sweep ends
  without error, its result has exactly \<open>n\<close> entries, the \<open>k\<close>-th entry is the energy
  density of the \<open>k\<close>-th point \<open>g = 0.1 * k\<close> (cell 8 prints them in that order, cell 10
  stores the same values next to the array of the \<open>g\<close>), and with a positive integrator
  every entry is non-negative. The 21 values stored in the notebook are non-negative as
  well. (Every real is finite: an overflow to infinity is a matter of floating point.)
\<close>

theorem sweep_result_invariant:
  assumes "positive_quad quad"
    and "\<forall>i<n. quad (y (0.1 * real i)) 0 pi \<noteq> Raised"
  shows "\<exists>es. cell8_loop quad [0..<n] [] = (es, None) \<and>
              cell10 quad n = (map (\<lambda>i. 0.1 * real i) [0..<n], es, None) \<and>
              length es = n \<and>
              (\<forall>k<n. energy quad (0.1 * real k) = Inr (es ! k) \<and> 0 \<le> es ! k) \<and>
              length cell8_output = 21 \<and> list_all ((\<le>) 0) cell8_output"
proof -
  let ?P = "\<lambda>i e. energy quad (0.1 * real i) = Inr e"
  let ?g = "map (\<lambda>i. 0.1 * real i) [0..<n]"
  from assms(2) have "\<forall>i\<in>set [0..<n]. quad (y (0.1 * real i)) 0 pi \<noteq> Raised"
    by simp
  from cell8_loop_returns [of "[0..<n]" quad "[]", OF this] obtain es where
    c8: "cell8_loop quad [0..<n] [] = (es, None)" and es: "list_all2 ?P [0..<n] es"
    by auto
  from es have len: "length es = n"
    by (auto dest: list_all2_lengthD)
  have nth: "energy quad (0.1 * real k) = Inr (es ! k)" if "k < n" for k
    using list_all2_nthD [OF es, of k] that by simp
  have init: "cell10_init [0..<n] (replicate n 0) = (?g, None)"
    using cell10_init_upt [of "replicate n 0" n 0] by simp
  have "\<forall>i<n. quad (y (?g ! i)) 0 pi \<noteq> Raised"
    using assms(2) by simp
  from cell10_loop_upt [of ?g n "replicate n 0" 0 quad, OF _ _ _ this] obtain es' where
    c10: "cell10_loop quad ?g [0..<n] (replicate n 0) = (es', None)"
    and es': "list_all2 (\<lambda>i e. energy quad (?g ! i) = Inr e) [0..<n] es'"
    by auto
  from es' have len': "length es' = n"
    by (auto dest: list_all2_lengthD)
  have "es' = es"
  proof (rule nth_equalityI)
    show "length es' = length es" using len len' by simp
  next
    fix k assume "k < length es'"
    then have k: "k < n" using len' by simp
    from list_all2_nthD [OF es', of k] k have "energy quad (0.1 * real k) = Inr (es' ! k)"
      by simp
    with nth [OF k] show "es' ! k = es ! k" by simp
  qed
  with c10 init have "cell10 quad n = (?g, es, None)"
    by (simp add: cell10_def)
  moreover have "0 \<le> es ! k" if "k < n" for k
    using energy_nonneg [OF assms(1) nth [OF that]] .
  moreover have "length cell8_output = 21" and "list_all ((\<le>) 0) cell8_output"
    by (simp_all add: cell8_output_def)
  ultimately show ?thesis
    using c8 len nth by blast
qed

theorem sweep_result_invariant_witness:
  "positive_quad midpoint_rule \<and>
   (\<exists>es. cell8_loop midpoint_rule [0..<21] [] = (es, None) \<and>
         cell10 midpoint_rule 21 = (map (\<lambda>i. 0.1 * real i) [0..<21], es, None) \<and>
         length es = 21 \<and>
         (\<forall>k<21. energy midpoint_rule (0.1 * real k) = Inr (es ! k) \<and> 0 \<le> es ! k) \<and>
         length cell8_output = 21 \<and> list_all ((\<le>) 0) cell8_output)"
proof -
  have "\<forall>i<21. midpoint_rule (y (0.1 * real i)) 0 pi \<noteq> Raised"
    by (simp add: midpoint_rule_y)
  from sweep_result_invariant [OF positive_midpoint_rule this] positive_midpoint_rule
  show ?thesis by simp
qed

section \<open>Non-convergence\<close>

lemma cell8_loop_append:
  "cell8_loop quad ps out = (out', None) \<Longrightarrow>
   cell8_loop quad (ps @ qs) out = cell8_loop quad qs out'"
proof (induction ps arbitrary: out)
  case Nil
  then show ?case by simp
next
  case (Cons i ps)
  show ?case
  proof (cases "quad (y (0.1 * real i)) 0 pi")
    case Raised
    with Cons.prems show ?thesis by simp
  next
    case (Returned I st)
    with Cons.prems have "cell8_loop quad ps (out @ [(1 / pi) * fst I]) = (out', None)"
      by simp
    from Cons.IH [OF this] Returned show ?thesis
      by simp
  qed
qed

text \<open>
  C2, as the code has it. The driver never looks at the convergence status: a sweep gives
  the same result whether or not the pairs it receives carry the non-convergence warning.
  Over points where the integrator returns, with any status, the sweep appends to its
  output exactly estimate / pi for each point, in order, and ends without error. The
  sweep stops only when the integrator raises: at the first such point the loop ends
  with the error, with nothing inserted for that point or for a later one, and with what
  was printed before kept.
\<close>

theorem sweep_ignores_status:
  "cell8_loop (forget_status quad) ps out = cell8_loop quad ps out \<and>
   ((\<forall>i\<in>set ps. quad (y (0.1 * real i)) 0 pi \<noteq> Raised) \<longrightarrow>
      (\<exists>es. list_all2
               (\<lambda>i e. \<exists>I st. quad (y (0.1 * real i)) 0 pi = Returned I st \<and> e = (1 / pi) * fst I)
               ps es \<and>
            cell8_loop quad ps out = (out @ es, None) \<and>
            (quad (y (0.1 * real j)) 0 pi = Raised \<longrightarrow>
               cell8_loop quad (ps @ j # qs) out = (out @ es, Some QuadError))))"
proof (intro conjI impI)
  show "cell8_loop (forget_status quad) ps out = cell8_loop quad ps out"
    by (rule cell8_loop_forget_status)
next
  let ?R = "\<lambda>i e. \<exists>I st. quad (y (0.1 * real i)) 0 pi = Returned I st \<and> e = (1 / pi) * fst I"
  assume "\<forall>i\<in>set ps. quad (y (0.1 * real i)) 0 pi \<noteq> Raised"
  then have "\<exists>es. list_all2 ?R ps es \<and> cell8_loop quad ps out = (out @ es, None)"
  proof (induction ps arbitrary: out)
    case Nil
    then show ?case by simp
  next
    case (Cons i ps)
    from Cons.prems obtain I st where q: "quad (y (0.1 * real i)) 0 pi = Returned I st"
      by (auto simp: not_Raised)
    let ?e = "(1 / pi) * fst I"
    from Cons.prems have "\<forall>k\<in>set ps. quad (y (0.1 * real k)) 0 pi \<noteq> Raised"
      by simp
    from Cons.IH [OF this, of "out @ [?e]"] obtain es where
      es: "list_all2 ?R ps es" "cell8_loop quad ps (out @ [?e]) = ((out @ [?e]) @ es, None)"
      by blast
    have "cell8_loop quad (i # ps) out = (out @ (?e # es), None)"
      using q es(2) by simp
    moreover have "\<exists>I' st'. quad (y (0.1 * real i)) 0 pi = Returned I' st' \<and> ?e = (1 / pi) * fst I'"
      using q by blast
    then have "list_all2 ?R (i # ps) (?e # es)"
      using es(1) by (simp only: list_all2_Cons simp_thms)
    ultimately show ?case by blast
  qed
  then obtain es where
    l: "list_all2 ?R ps es" and c: "cell8_loop quad ps out = (out @ es, None)"
    by blast
  note l
  moreover have "cell8_loop quad (ps @ j # qs) out = (out @ es, Some QuadError)"
    if "quad (y (0.1 * real j)) 0 pi = Raised"
    using cell8_loop_append [OF c, of "j # qs"] that by simp
  ultimately show
    "\<exists>es. list_all2
             (\<lambda>i e. \<exists>I st. quad (y (0.1 * real i)) 0 pi = Returned I st \<and> e = (1 / pi) * fst I)
             ps es \<and>
          cell8_loop quad ps out = (out @ es, None) \<and>
          (quad (y (0.1 * real j)) 0 pi = Raised \<longrightarrow>
             cell8_loop quad (ps @ j # qs) out = (out @ es, Some QuadError))"
    using c by blast
qed

lemma cusp_raising_quad_9: "cusp_raising_quad (y (0.1 * real 9)) 0 pi = Returned (pi, 1) Warned"
proof -
  have "integrand (9 / 10) 0 = 1 / 10"
    by (simp add: integrand_def radicand_def power2_eq_square real_sqrt_divide)
  then show ?thesis
    by (simp add: cusp_raising_quad_def y_integrand)
qed

lemma cusp_raising_quad_10: "cusp_raising_quad (y (0.1 * real 10)) 0 pi = Raised"
  by (simp add: cusp_raising_quad_def y_cusp)

theorem sweep_ignores_status_witness:
  "cusp_raising_quad (y (0.1 * real 9)) 0 pi = Returned (pi, 1) Warned \<and>
   cusp_raising_quad (y (0.1 * real 10)) 0 pi = Raised \<and>
   cell8_loop (forget_status cusp_raising_quad) [9] [7] = cell8_loop cusp_raising_quad [9] [7] \<and>
   cell8_loop cusp_raising_quad [9] [7] = ([7, 1], None) \<and>
   cell8_loop cusp_raising_quad [9, 10, 11] [7] = ([7, 1], Some QuadError)"
proof -
  note q9 = cusp_raising_quad_9 and q10 = cusp_raising_quad_10
  have r: "\<forall>i\<in>set [9]. cusp_raising_quad (y (0.1 * real i)) 0 pi \<noteq> Raised"
    using q9 by simp
  from sweep_ignores_status [of cusp_raising_quad "[9]" "[7]" 10 "[11]"] r q10
  obtain es where
    f: "cell8_loop (forget_status cusp_raising_quad) [9] [7] = cell8_loop cusp_raising_quad [9] [7]"
    and l: "list_all2
         (\<lambda>i e. \<exists>I st. cusp_raising_quad (y (0.1 * real i)) 0 pi = Returned I st \<and>
                  e = (1 / pi) * fst I) [9] es"
    and c: "cell8_loop cusp_raising_quad [9] [7] = ([7] @ es, None)"
    and e: "cell8_loop cusp_raising_quad ([9] @ 10 # [11]) [7] = ([7] @ es, Some QuadError)"
    by blast
  from l obtain v where es: "es = [v]"
    and v: "\<exists>I st. cusp_raising_quad (y (0.1 * real 9)) 0 pi = Returned I st \<and> v = (1 / pi) * fst I"
    by (auto simp: list_all2_Cons1)
  from v q9 have "v = 1" by auto
  with es f c e q9 q10 show ?thesis
    by simp
qed

text \<open>
  The claim C2 as the specification states it fails: an integrator that reports
  non-convergence at every point (the pair \<open>(pi, 1)\<close> with the warning) leaves the sweep
  of cell 8 with no error and with all 21 unvalidated values, \<open>(1/pi) * pi = 1\<close>, in
  its output.
\<close>

theorem warned_estimates_inserted:
  "warning_quad (y 1) 0 pi = Returned (pi, 1) Warned \<and>
   cell8 warning_quad = (replicate 21 1, None)"
  by (simp add: cell8_def cell8_loop_warning_quad) (simp add: warning_quad_def)

section \<open>The values of the sweep\<close>

subsection \<open>The point \<open>g = 0\<close>\<close>

lemma integrand_zero: "integrand 0 x = 1"
  by (simp add: integrand_def radicand_def)

text \<open>
  C3. For \<open>g = 0\<close> the integrand is the constant 1, since
  \<open>sqrt (cos\<^sup>2 x + sin\<^sup>2 x) = 1\<close>; so when the integrator returns \<open>pi\<close>, the
  integral of 1 over \<open>[0, pi]\<close>, the energy density is \<open>(1/pi) * pi = 1\<close> exactly,
  and this is what the first iteration of the sweep prints. The first value stored in
  the notebook is 1.0.
\<close>

theorem energy_at_zero:
  assumes "quad (y 0) 0 pi = Returned I st" and "fst I = pi"
  shows "y 0 x = Inr 1 \<and> integrand 0 x = 1 \<and> energy quad 0 = Inr 1 \<and>
         cell8_loop quad [0] [] = ([1], None) \<and> cell8_output ! 0 = 1"
proof -
  have "y 0 x = Inr 1"
    by (simp add: y_integrand integrand_zero)
  moreover have "energy quad 0 = Inr 1"
    using assms by (simp add: energy_def)
  moreover have "cell8_loop quad [0] [] = ([1], None)"
    using assms by simp
  moreover have "cell8_output ! 0 = 1"
    by (simp add: cell8_output_def)
  ultimately show ?thesis
    by (simp add: integrand_zero)
qed

theorem energy_at_zero_witness:
  "midpoint_rule (y 0) 0 pi = Returned (pi, 0) Converged \<and> fst (pi, 0 :: real) = pi \<and>
   y 0 0 = Inr 1 \<and> integrand 0 0 = 1 \<and> energy midpoint_rule 0 = Inr 1 \<and>
   cell8_loop midpoint_rule [0] [] = ([1], None) \<and> cell8_output ! 0 = 1"
proof -
  have m: "midpoint_rule (y 0) 0 pi = Returned (pi, 0) Converged"
    by (simp add: midpoint_rule_y integrand_zero)
  have f: "fst (pi, 0 :: real) = pi"
    by simp
  from energy_at_zero [of midpoint_rule "(pi, 0)" Converged 0, OF m f] m f show ?thesis
    by blast
qed

subsection \<open>The range \<open>1 \<le> g\<close>\<close>

text \<open>
  From \<open>g = 1\<close> on, the integrand is non-decreasing in \<open>g\<close> at every point \<open>x\<close>. What
  the library's floating-point estimates do with it is outside the model.
\<close>

lemma integrand_mono:
  assumes "1 \<le> g1" and "g1 \<le> g2"
  shows "integrand g1 x \<le> integrand g2 x"
proof -
  have "cos x \<le> 1" by simp
  then have "0 \<le> g1 - cos x" and "g1 - cos x \<le> g2 - cos x"
    using assms by linarith+
  then have "(g1 - cos x)\<^sup>2 \<le> (g2 - cos x)\<^sup>2"
    by (rule power_mono [rotated])
  then show ?thesis
    by (simp add: integrand_def radicand_def)
qed

subsection \<open>Bounds on \<open>pi\<close>\<close>

lemma arctan_sum_bounds:
  assumes "0 \<le> x" and "x \<le> 1"
  shows "arctan_sum (2 * n) x \<le> arctan x" and "arctan x \<le> arctan_sum (2 * n + 1) x"
proof -
  let ?a = "\<lambda>n. 1 / real (n * 2 + 1) * x ^ (n * 2 + 1)"
  have ax: "\<bar>x\<bar> \<le> 1" using assms by simp
  have zero: "?a \<longlonglongrightarrow> 0" by (rule zeroseq_arctan_series [OF ax])
  have pos: "0 \<le> ?a k" for k using assms by simp
  have mono: "?a (Suc k) \<le> ?a k" for k
  proof -
    have "x ^ (Suc k * 2 + 1) \<le> x ^ (k * 2 + 1)"
      using assms by (intro power_decreasing) auto
    moreover have "1 / real (Suc k * 2 + 1) \<le> 1 / real (k * 2 + 1)"
      by (intro divide_left_mono) auto
    moreover have "0 \<le> x ^ (Suc k * 2 + 1)" using assms by simp
    ultimately show ?thesis
      by (intro mult_mono) auto
  qed
  have series: "arctan x = (\<Sum>k. (- 1) ^ k * ?a k)"
    by (rule arctan_series [OF ax])
  show "arctan_sum (2 * n) x \<le> arctan x"
    unfolding arctan_sum_def series by (rule summable_Leibniz'(2) [OF zero pos mono])
  show "arctan x \<le> arctan_sum (2 * n + 1) x"
    unfolding arctan_sum_def series by (rule summable_Leibniz'(4) [OF zero pos mono])
qed

text \<open>Machin's formula with 12 and 13 terms for \<open>1/5\<close>, 4 and 5 terms for \<open>1/239\<close>.\<close>

lemma pi_lower: "3.141592653589793236 < pi"
proof -
  have a: "arctan_sum 12 (1 / 5) \<le> arctan (1 / 5)"
    using arctan_sum_bounds(1) [of "1 / 5" 6] by simp
  have b: "arctan (1 / 239) \<le> arctan_sum 5 (1 / 239)"
    using arctan_sum_bounds(2) [of "1 / 239" 2] by simp
  have "3.141592653589793236 < 16 * arctan_sum 12 (1 / 5) - 4 * arctan_sum 5 (1 / 239)"
    by (simp add: arctan_sum_def eval_nat_numeral)
  also have "\<dots> \<le> 16 * arctan (1 / 5) - 4 * arctan (1 / 239)"
    using a b by linarith
  also have "\<dots> = pi"
    using machin by simp
  finally show ?thesis .
qed

lemma pi_upper: "pi < 3.141592653589793239"
proof -
  have a: "arctan (1 / 5) \<le> arctan_sum 13 (1 / 5)"
    using arctan_sum_bounds(2) [of "1 / 5" 6] by simp
  have b: "arctan_sum 4 (1 / 239) \<le> arctan (1 / 239)"
    using arctan_sum_bounds(1) [of "1 / 239" 2] by simp
  have "pi = 16 * arctan (1 / 5) - 4 * arctan (1 / 239)"
    using machin by simp
  also have "\<dots> \<le> 16 * arctan_sum 13 (1 / 5) - 4 * arctan_sum 4 (1 / 239)"
    using a b by linarith
  also have "\<dots> < 3.141592653589793239"
    by (simp add: arctan_sum_def eval_nat_numeral)
  finally show ?thesis .
qed

subsection \<open>The point \<open>g = 1\<close>\<close>

lemma integrand_one:
  assumes "0 \<le> x" and "x \<le> pi"
  shows "integrand 1 x = 2 * sin (x / 2)"
proof -
  have "cos x = 1 - 2 * (sin (x / 2))\<^sup>2"
    using cos_double_sin [of "x / 2"] by simp
  then have "(2 * sin (x / 2))\<^sup>2 = radicand 1 x"
    by (simp add: radicand_def power2_diff sin_squared_eq power_mult_distrib)
  moreover have "0 \<le> 2 * sin (x / 2)"
    using assms sin_ge_zero [of "x / 2"] by simp
  ultimately show ?thesis
    unfolding integrand_def by (intro real_sqrt_unique)
qed

lemma primitive_at_one_deriv: "DERIV primitive_at_one x :> 2 * sin (x / 2)"
  unfolding primitive_at_one_def
  by (auto intro!: derivative_eq_intros)

lemma primitive_at_one_diff: "primitive_at_one pi - primitive_at_one 0 = 4"
  by (simp add: primitive_at_one_def)

lemma four_over_pi: "\<bar>1.2732395447351625 - 4 / pi\<bar> \<le> 2 / 10 ^ 16"
proof -
  define t where "t = 4 / pi"
  have p: "0 < pi" by simp
  have "t \<le> 1.2732395447351625 + 2 / 10 ^ 16"
    unfolding t_def using pi_lower p by (simp add: field_simps)
  moreover have "1.2732395447351625 \<le> t"
    unfolding t_def using pi_upper p by (simp add: field_simps)
  ultimately have "\<bar>1.2732395447351625 - t\<bar> \<le> 2 / 10 ^ 16"
    by linarith
  then show ?thesis by (simp only: t_def)
qed

lemma recorded_over_pi:
  "\<bar>(1 / pi) * 3.9999999999999996 - 1.2732395447351625\<bar> \<le> 2 / 10 ^ 16"
proof -
  define t where "t = (1 / pi) * 3.9999999999999996"
  have p: "0 < pi" by simp
  have "t \<le> 1.2732395447351625 + 2 / 10 ^ 16"
    unfolding t_def using pi_lower p by (simp add: field_simps)
  moreover have "1.2732395447351625 - 2 / 10 ^ 16 \<le> t"
    unfolding t_def using pi_upper p by (simp add: field_simps)
  ultimately have "\<bar>t - 1.2732395447351625\<bar> \<le> 2 / 10 ^ 16"
    by linarith
  then show ?thesis by (simp only: t_def)
qed

text \<open>Any primitive of the integrand for \<open>g = 1\<close> on \<open>[0, pi]\<close> grows by 4 there.\<close>

lemma primitive_increase_at_one:
  assumes "\<forall>x. 0 \<le> x \<and> x \<le> pi \<longrightarrow> (\<exists>v. y 1 x = Inr v \<and> DERIV F x :> v)"
  shows "F pi - F 0 = 4"
proof -
  let ?G = "\<lambda>x. F x - primitive_at_one x"
  have d: "DERIV ?G x :> 0" if "0 \<le> x" and "x \<le> pi" for x
  proof -
    from assms that have "DERIV F x :> integrand 1 x"
      by (auto simp: y_integrand)
    then have "DERIV F x :> 2 * sin (x / 2)"
      using that by (simp add: integrand_one)
    from DERIV_diff [OF this primitive_at_one_deriv [of x]] show ?thesis
      by simp
  qed
  have "isCont ?G x" if "x \<in> {0..pi}" for x
    using DERIV_isCont [OF d [of x]] that by simp
  then have "continuous_on {0..pi} ?G"
    by (intro continuous_at_imp_continuous_on ballI)
  moreover have "DERIV ?G x :> 0" if "0 < x" and "x < pi" for x
    using d [of x] that by simp
  ultimately have "?G pi = ?G 0"
    using pi_gt_zero by (rule DERIV_isconst_end [rotated])
  then show ?thesis
    using primitive_at_one_diff by simp
qed

lemma accurate_on_recorded_quad: "accurate_on recorded_quad (y 1) 0 pi"
  unfolding accurate_on_def
proof (intro allI impI)
  fix F :: "real \<Rightarrow> real" and I :: "real \<times> real" and st
  assume r: "recorded_quad (y 1) 0 pi = Returned I st"
    and F: "\<forall>x. 0 \<le> x \<and> x \<le> pi \<longrightarrow> (\<exists>v. y 1 x = Inr v \<and> DERIV F x :> v)"
  from r have "I = cell6_output_I"
    by (simp add: recorded_quad_def)
  then show "\<bar>fst I - (F pi - F 0)\<bar> \<le> snd I"
    using primitive_increase_at_one [OF F] by (simp add: cell6_output_I_def)
qed

lemma closed_form_quad_at_one: "closed_form_quad (y 1) 0 pi = Returned (4, 0) Converged"
  using primitive_at_one_diff by (simp add: closed_form_quad_def)

lemma accurate_on_closed_form_quad: "accurate_on closed_form_quad (y 1) 0 pi"
  unfolding accurate_on_def
proof (intro allI impI)
  fix F :: "real \<Rightarrow> real" and I :: "real \<times> real" and st
  assume r: "closed_form_quad (y 1) 0 pi = Returned I st"
    and F: "\<forall>x. 0 \<le> x \<and> x \<le> pi \<longrightarrow> (\<exists>v. y 1 x = Inr v \<and> DERIV F x :> v)"
  from r have "I = (4, 0)"
    by (simp add: closed_form_quad_at_one)
  then show "\<bar>fst I - (F pi - F 0)\<bar> \<le> snd I"
    using primitive_increase_at_one [OF F] by simp
qed

text \<open>
  C4. For \<open>g = 1\<close> the integrand has the primitive \<open>- 4 * cos (x/2)\<close> on \<open>[0, pi]\<close>,
  which grows by 4, so the integral is 4 and the closed form of the energy density is
  \<open>4/pi\<close>. With an integrator that is accurate on this call, cell 6 computes
  \<open>e = (1/pi) * I[0]\<close> within \<open>abserr / pi\<close> of \<open>4/pi\<close>, and exactly \<open>4/pi\<close> when the
  error is 0. The reference value 1.2732395447351625 is \<open>4/pi\<close> to within
  \<open>2 * 10\<^sup>-\<^sup>1\<^sup>6\<close>, one unit in the last place of a double, and it is the value stored in
  the notebook; with the estimate that the notebook stores for the integral, \<open>e\<close> is
  within the same distance of it.
\<close>

theorem energy_at_one:
  assumes "quad (y 1) 0 pi = Returned I st" and "accurate_on quad (y 1) 0 pi"
  shows "cell6 quad = Inr (I, (1 / pi) * fst I) \<and>
         energy quad 1 = Inr ((1 / pi) * fst I) \<and>
         \<bar>(1 / pi) * fst I - 4 / pi\<bar> \<le> snd I / pi \<and>
         (snd I = 0 \<longrightarrow> energy quad 1 = Inr (4 / pi)) \<and>
         \<bar>4 / pi - 1.2732395447351625\<bar> \<le> 2 / 10 ^ 16 \<and>
         cell6_output_e = 1.2732395447351625 \<and>
         (fst I = fst cell6_output_I \<longrightarrow>
            \<bar>(1 / pi) * fst I - 1.2732395447351625\<bar> \<le> 2 / 10 ^ 16)"
proof -
  have c: "cell6 quad = Inr (I, (1 / pi) * fst I)"
    using assms(1) by (simp add: cell6_def)
  have e: "energy quad 1 = Inr ((1 / pi) * fst I)"
    using assms(1) by (simp add: energy_def)
  have p: "\<forall>x. 0 \<le> x \<and> x \<le> pi \<longrightarrow> (\<exists>v. y 1 x = Inr v \<and> DERIV primitive_at_one x :> v)"
  proof (intro allI impI)
    fix x :: real
    assume x: "0 \<le> x \<and> x \<le> pi"
    have "cos x = 1 - 2 * (sin (x / 2))\<^sup>2"
      using cos_double_sin [of "x / 2"] by simp
    then have sq: "(2 * sin (x / 2))\<^sup>2 = (1 - cos x)\<^sup>2 + (sin x)\<^sup>2"
      by (simp add: power2_diff sin_squared_eq power_mult_distrib)
    have nn: "0 \<le> 2 * sin (x / 2)"
      using x sin_ge_zero [of "x / 2"] by simp
    have "sqrt ((1 - cos x)\<^sup>2 + (sin x)\<^sup>2) = 2 * sin (x / 2)"
      using sq nn by (intro real_sqrt_unique)
    then have "y 1 x = Inr (2 * sin (x / 2))"
      unfolding y_def sym_sqrt_def radicand_def by (simp add: not_less)
    moreover have "DERIV primitive_at_one x :> 2 * sin (x / 2)"
      unfolding primitive_at_one_def by (auto intro!: derivative_eq_intros)
    ultimately show "\<exists>v. y 1 x = Inr v \<and> DERIV primitive_at_one x :> v"
      by blast
  qed
  have "primitive_at_one pi - primitive_at_one 0 = 4"
    unfolding primitive_at_one_def by simp
  moreover from assms p
  have "\<bar>fst I - (primitive_at_one pi - primitive_at_one 0)\<bar> \<le> snd I"
    unfolding accurate_on_def by blast
  ultimately have a: "\<bar>fst I - 4\<bar> \<le> snd I"
    by (simp only:)
  have "(1 / pi) * fst I - 4 / pi = (fst I - 4) / pi"
    by (simp add: diff_divide_distrib)
  then have "\<bar>(1 / pi) * fst I - 4 / pi\<bar> = \<bar>fst I - 4\<bar> / pi"
    by simp
  also have "\<dots> \<le> snd I / pi"
    using a by (simp add: divide_right_mono)
  finally have b: "\<bar>(1 / pi) * fst I - 4 / pi\<bar> \<le> snd I / pi" .
  have z: "energy quad 1 = Inr (4 / pi)" if "snd I = 0"
    using a e that by simp
  have r: "\<bar>4 / pi - 1.2732395447351625\<bar> \<le> 2 / 10 ^ 16"
    using four_over_pi by (simp only: abs_minus_commute)
  have o: "cell6_output_e = 1.2732395447351625"
    by (simp add: cell6_output_e_def)
  have s: "\<bar>(1 / pi) * fst I - 1.2732395447351625\<bar> \<le> 2 / 10 ^ 16"
    if "fst I = fst cell6_output_I"
  proof -
    from that have "fst I = 3.9999999999999996"
      by (simp add: cell6_output_I_def)
    then show ?thesis
      using recorded_over_pi by (simp only:)
  qed
  from c e b z r o s show ?thesis
    by blast
qed

theorem energy_at_one_witness:
  "recorded_quad (y 1) 0 pi = Returned cell6_output_I Converged \<and>
   accurate_on recorded_quad (y 1) 0 pi \<and>
   energy recorded_quad 1 = Inr ((1 / pi) * fst cell6_output_I) \<and>
   \<bar>(1 / pi) * fst cell6_output_I - 4 / pi\<bar> \<le> snd cell6_output_I / pi \<and>
   \<bar>(1 / pi) * fst cell6_output_I - 1.2732395447351625\<bar> \<le> 2 / 10 ^ 16 \<and>
   closed_form_quad (y 1) 0 pi = Returned (4, 0) Converged \<and>
   accurate_on closed_form_quad (y 1) 0 pi \<and>
   cell6 closed_form_quad = Inr ((4, 0), (1 / pi) * 4) \<and>
   energy closed_form_quad 1 = Inr (4 / pi)"
proof -
  have r: "recorded_quad (y 1) 0 pi = Returned cell6_output_I Converged"
    by (simp add: recorded_quad_def)
  note w1 = energy_at_one [of recorded_quad cell6_output_I Converged, OF r accurate_on_recorded_quad]
  note w2 = energy_at_one [of closed_form_quad "(4, 0)" Converged,
      OF closed_form_quad_at_one accurate_on_closed_form_quad]
  from w1 w2 r accurate_on_recorded_quad closed_form_quad_at_one accurate_on_closed_form_quad
  show ?thesis
    by simp
qed

end
